theory Spec2Isabelle
  imports Main "HOL-Library.Multiset"
begin

section \<open>The metadata store of FileSharePro (server/storage.ts)\<close>

text \<open>
  The store is the class \<open>MemStorage\<close>: a JavaScript \<open>Map\<close> from numeric id to file
  record, and the counter \<open>currentId\<close>. Every method is \<open>async\<close> but contains no
  \<open>await\<close>, so each call runs to completion on the single-threaded event loop; a call
  is modelled as one function from the state before to the result and the state after.

  Numbers. The TypeScript type of \<open>id\<close>, \<open>size\<close>, \<open>views\<close>, \<open>downloads\<close> and
  \<open>currentId\<close> is \<open>number\<close>; the schema declares all of them as integer columns.
  They are modelled as \<open>int\<close>. A JavaScript number holds every integer of magnitude up
  to \<open>2^53\<close> exactly and \<open>+\<close>, \<open>++\<close> and \<open>-\<close> are exact on them, so the model
  agrees with the code as long as the id counter, the counters and the sums stay in that
  range.

  Time. \<open>new Date()\<close> reads the wall clock; the reading is an argument of
  \<open>createFile\<close> (milliseconds since the epoch, what \<open>getTime()\<close> returns).
\<close>

subsection \<open>Records (shared/schema.ts)\<close>

text \<open>
  \<open>InsertFile\<close> is the draft picked from the table's columns; \<open>File\<close> is the full
  row, built in \<open>createFile\<close> as \<open>{...insertFile, id, uploadedAt, views, downloads}\<close>.
  The fields \<open>id\<close> and \<open>size\<close> are written \<open>id_f\<close> and \<open>size_f\<close>, since
  \<open>id\<close> and \<open>size\<close> are constants of HOL.
\<close>

record InsertFile =
  filename :: string
  originalName :: string
  mimeType :: string
  size_f :: int
  shareId :: string

record File = InsertFile +
  id_f :: int
  uploadedAt :: int
  views :: int
  downloads :: int

record Stats =
  totalFiles :: nat
  totalViews :: int
  totalDownloads :: int
  totalSize :: int

subsection \<open>The JavaScript Map\<close>

text \<open>
  A \<open>Map\<close> iterates in insertion order: \<open>set\<close> on a key that is present replaces the
  value where it stands, \<open>set\<close> on a new key appends, \<open>delete\<close> removes the entry.
  The order decides what \<open>find\<close> returns and how a stable sort breaks ties, so the map
  is an association list in insertion order.
\<close>

type_synonym 'v js_map = "(int \<times> 'v) list"

fun Map_get :: "int \<Rightarrow> 'v js_map \<Rightarrow> 'v option" where
  "Map_get k [] = None"
| "Map_get k ((k', v') # m) = (if k' = k then Some v' else Map_get k m)"

fun Map_set :: "int \<Rightarrow> 'v \<Rightarrow> 'v js_map \<Rightarrow> 'v js_map" where
  "Map_set k v [] = [(k, v)]"
| "Map_set k v ((k', v') # m) =
     (if k' = k then (k, v) # m else (k', v') # Map_set k v m)"

fun Map_delete :: "int \<Rightarrow> 'v js_map \<Rightarrow> 'v js_map" where
  "Map_delete k [] = []"
| "Map_delete k ((k', v') # m) =
     (if k' = k then Map_delete k m else (k', v') # Map_delete k m)"

definition Map_values :: "'v js_map \<Rightarrow> 'v list" where
  "Map_values m = map snd m"

definition Map_keys :: "'v js_map \<Rightarrow> int list" where
  "Map_keys m = map fst m"

subsection \<open>Array methods\<close>

text \<open>
  \<open>Array.prototype.find\<close> returns the first element that satisfies the predicate, or
  \<open>undefined\<close> (here \<open>None\<close>).
\<close>

fun Array_find :: "('a \<Rightarrow> bool) \<Rightarrow> 'a list \<Rightarrow> 'a option" where
  "Array_find p [] = None"
| "Array_find p (x # xs) = (if p x then Some x else Array_find p xs)"

text \<open>
  \<open>Array.prototype.reduce\<close> with an initial value folds from the left.
\<close>

fun Array_reduce :: "('b \<Rightarrow> 'a \<Rightarrow> 'b) \<Rightarrow> 'b \<Rightarrow> 'a list \<Rightarrow> 'b" where
  "Array_reduce f acc [] = acc"
| "Array_reduce f acc (x # xs) = Array_reduce f (f acc x) xs"

text \<open>
  \<open>Array.prototype.sort\<close> with a comparator \<open>cmp\<close> puts \<open>a\<close> before \<open>b\<close> when
  \<open>cmp a b < 0\<close> and is stable (ECMAScript 2019): elements that compare equal keep
  their order. It is modelled as the stable insertion sort: each element, from the last
  to the first, is inserted in front of the first element it does not have to follow.
\<close>

fun sort_insert :: "('a \<Rightarrow> 'a \<Rightarrow> int) \<Rightarrow> 'a \<Rightarrow> 'a list \<Rightarrow> 'a list" where
  "sort_insert cmp x [] = [x]"
| "sort_insert cmp x (y # ys) =
     (if cmp x y \<le> 0 then x # y # ys else y # sort_insert cmp x ys)"

fun Array_sort :: "('a \<Rightarrow> 'a \<Rightarrow> int) \<Rightarrow> 'a list \<Rightarrow> 'a list" where
  "Array_sort cmp [] = []"
| "Array_sort cmp (x # xs) = sort_insert cmp x (Array_sort cmp xs)"

subsection \<open>MemStorage\<close>

record MemStorage =
  files :: "File js_map"
  currentId :: int

text \<open>The constructor: an empty map, and the counter at 1.\<close>

definition MemStorage_new :: MemStorage where
  "MemStorage_new = \<lparr>files = [], currentId = 1\<rparr>"

text \<open>
  \<open>createFile\<close>: \<open>const id = this.currentId++\<close> takes the counter's value and then
  advances it; the record spreads the draft and adds the four assigned fields; the
  record is stored under its id and returned. \<open>now\<close> is the reading of \<open>new Date()\<close>.
\<close>

definition createFile :: "InsertFile \<Rightarrow> int \<Rightarrow> MemStorage \<Rightarrow> File \<times> MemStorage" where
  "createFile insertFile now s =
     (let i = currentId s;
          s1 = s\<lparr>currentId := currentId s + 1\<rparr>;
          file = \<lparr>filename = filename insertFile,
                  originalName = originalName insertFile,
                  mimeType = mimeType insertFile,
                  size_f = size_f insertFile,
                  shareId = shareId insertFile,
                  id_f = i, uploadedAt = now, views = 0, downloads = 0\<rparr>
      in (file, s1\<lparr>files := Map_set i file (files s1)\<rparr>))"

definition getFileByShareId :: "string \<Rightarrow> MemStorage \<Rightarrow> File option \<times> MemStorage" where
  "getFileByShareId sid s =
     (Array_find (\<lambda>file. shareId file = sid) (Map_values (files s)), s)"

definition getAllFiles :: "MemStorage \<Rightarrow> File list \<times> MemStorage" where
  "getAllFiles s =
     (Array_sort (\<lambda>a b. uploadedAt b - uploadedAt a) (Map_values (files s)), s)"

definition incrementViews :: "int \<Rightarrow> MemStorage \<Rightarrow> MemStorage" where
  "incrementViews i s =
     (case Map_get i (files s) of
        Some file \<Rightarrow> s\<lparr>files := Map_set i (file\<lparr>views := views file + 1\<rparr>) (files s)\<rparr>
      | None \<Rightarrow> s)"

definition incrementDownloads :: "int \<Rightarrow> MemStorage \<Rightarrow> MemStorage" where
  "incrementDownloads i s =
     (case Map_get i (files s) of
        Some file \<Rightarrow> s\<lparr>files := Map_set i (file\<lparr>downloads := downloads file + 1\<rparr>) (files s)\<rparr>
      | None \<Rightarrow> s)"

definition deleteFile :: "int \<Rightarrow> MemStorage \<Rightarrow> MemStorage" where
  "deleteFile i s = s\<lparr>files := Map_delete i (files s)\<rparr>"

definition getStats :: "MemStorage \<Rightarrow> Stats \<times> MemStorage" where
  "getStats s =
     (let allFiles = Map_values (files s)
      in (\<lparr>totalFiles = length allFiles,
           totalViews = Array_reduce (\<lambda>sum file. sum + views file) 0 allFiles,
           totalDownloads = Array_reduce (\<lambda>sum file. sum + downloads file) 0 allFiles,
           totalSize = Array_reduce (\<lambda>sum file. sum + size_f file) 0 allFiles\<rparr>, s))"

subsection \<open>Sequences of calls\<close>

text \<open>
  A call of the interface \<open>IStorage\<close>, with its arguments (and, for \<open>createFile\<close>, the
  clock reading). \<open>step\<close> is the state after one call, \<open>exec\<close> the state after a
  sequence of calls, \<open>created_ids\<close> the ids that the \<open>createFile\<close> calls of a sequence
  return, in the order of the calls.
\<close>

datatype op =
    CreateFile InsertFile int
  | GetFileByShareId string
  | GetAllFiles
  | IncrementViews int
  | IncrementDownloads int
  | DeleteFile int
  | GetStats

fun step :: "op \<Rightarrow> MemStorage \<Rightarrow> MemStorage" where
  "step (CreateFile d now) s = snd (createFile d now s)"
| "step (GetFileByShareId sid) s = snd (getFileByShareId sid s)"
| "step GetAllFiles s = snd (getAllFiles s)"
| "step (IncrementViews i) s = incrementViews i s"
| "step (IncrementDownloads i) s = incrementDownloads i s"
| "step (DeleteFile i) s = deleteFile i s"
| "step GetStats s = snd (getStats s)"

fun exec :: "op list \<Rightarrow> MemStorage \<Rightarrow> MemStorage" where
  "exec [] s = s"
| "exec (c # cs) s = exec cs (step c s)"

fun created_ids :: "op list \<Rightarrow> MemStorage \<Rightarrow> int list" where
  "created_ids [] s = []"
| "created_ids (CreateFile d now # cs) s =
     id_f (fst (createFile d now s)) # created_ids cs (step (CreateFile d now) s)"
| "created_ids (c # cs) s = created_ids cs (step c s)"

text \<open>
  The invariant of the store: the keys of the map are distinct (it is a \<open>Map\<close>), every
  record is stored under its own id, and every key is below the counter.
\<close>

definition wf :: "MemStorage \<Rightarrow> bool" where
  "wf s \<longleftrightarrow> distinct (Map_keys (files s))
          \<and> list_all (\<lambda>(k, f). id_f f = k \<and> k < currentId s) (files s)"

subsection \<open>Concrete drafts\<close>

text \<open>
  Three drafts for the worked examples: the first is the one of the specification's
  scenario; the third carries the same share id as the first.
\<close>

definition draftA :: InsertFile where
  "draftA = \<lparr>filename = ''f1.png'', originalName = ''photo.png'', mimeType = ''image/png'',
             size_f = 2048, shareId = ''abc123''\<rparr>"

definition draftB :: InsertFile where
  "draftB = \<lparr>filename = ''f2.pdf'', originalName = ''notes.pdf'',
             mimeType = ''application/pdf'', size_f = 512, shareId = ''def456''\<rparr>"

definition draftC :: InsertFile where
  "draftC = \<lparr>filename = ''f3.txt'', originalName = ''todo.txt'', mimeType = ''text/plain'',
             size_f = 7, shareId = ''abc123''\<rparr>"

subsection \<open>Concrete stores\<close>

text \<open>
  The store after creating A and then B, the store after creating A and then C (two
  records with one share id), the record of A, and that record two views and one
  download later.
\<close>

definition storeAB :: MemStorage where
  "storeAB = exec [CreateFile draftA 1, CreateFile draftB 2] MemStorage_new"

definition storeAC :: MemStorage where
  "storeAC = exec [CreateFile draftA 1, CreateFile draftC 2] MemStorage_new"

definition fileA :: File where
  "fileA = fst (createFile draftA 1 MemStorage_new)"

definition fileA_later :: File where
  "fileA_later = fileA\<lparr>views := 2, downloads := 1\<rparr>"

section \<open>The map and the array methods\<close>

lemma mset_sort_insert: "mset (sort_insert cmp x xs) = add_mset x (mset xs)"
  by (induction xs) auto

lemma mset_Array_sort: "mset (Array_sort cmp xs) = mset xs"
  by (induction xs) (auto simp: mset_sort_insert)

lemma Array_reduce_sum:
  "Array_reduce (\<lambda>sum x. sum + g x) acc xs = acc + sum_list (map g xs)"
  for acc :: int
  by (induction xs arbitrary: acc) auto

lemma sum_list_Array_sort:
  "sum_list (map g (Array_sort cmp xs)) = sum_list (map g xs)"
  for g :: "'a \<Rightarrow> int"
proof -
  have "mset (map g (Array_sort cmp xs)) = mset (map g xs)"
    by (simp add: mset_Array_sort)
  then show ?thesis
    by (metis sum_mset_sum_list)
qed

lemma length_Array_sort: "length (Array_sort cmp xs) = length xs"
  by (metis mset_Array_sort size_mset)

section \<open>The claims\<close>

subsection \<open>The id counter\<close>

lemma currentId_createFile: "currentId (snd (createFile d now s)) = currentId s + 1"
  by (simp add: createFile_def Let_def)

lemma id_createFile: "id_f (fst (createFile d now s)) = currentId s"
  by (simp add: createFile_def Let_def)

lemma currentId_incrementViews: "currentId (incrementViews i s) = currentId s"
  by (simp add: incrementViews_def split: option.splits)

lemma currentId_incrementDownloads: "currentId (incrementDownloads i s) = currentId s"
  by (simp add: incrementDownloads_def split: option.splits)

lemma currentId_deleteFile: "currentId (deleteFile i s) = currentId s"
  by (simp add: deleteFile_def)

lemma currentId_step: "currentId s \<le> currentId (step c s)"
  by (cases c)
     (simp_all add: currentId_createFile currentId_incrementViews
        currentId_incrementDownloads currentId_deleteFile
        getFileByShareId_def getAllFiles_def getStats_def Let_def)

text \<open>Every id that a sequence of calls hands out is at least the counter it starts from.\<close>

lemma created_ids_lower: "i \<in> set (created_ids cs s) \<Longrightarrow> currentId s \<le> i"
proof (induction cs arbitrary: s)
  case Nil
  then show ?case by simp
next
  case (Cons c cs)
  have le: "currentId s \<le> currentId (step c s)"
    by (rule currentId_step)
  have rest: "currentId s \<le> i" if "i \<in> set (created_ids cs (step c s))"
    using Cons.IH [OF that] le by simp
  show ?case
  proof (cases c)
    case (CreateFile d now)
    with Cons.prems rest show ?thesis by (auto simp: id_createFile)
  qed (use Cons.prems rest in simp_all)
qed

lemma created_ids_increasing: "sorted_wrt (<) (created_ids cs s)"
proof (induction cs s rule: created_ids.induct)
  case (2 d now cs s)
  have "\<forall>i\<in>set (created_ids cs (step (CreateFile d now) s)). currentId s < i"
    using created_ids_lower [of _ cs "step (CreateFile d now) s"]
    by (fastforce simp: currentId_createFile)
  with 2 show ?case by (simp add: id_createFile)
qed simp_all

text \<open>
  C2. For every sequence of calls on one store (any mix of \<open>createFile\<close>, \<open>deleteFile\<close>
  and the other five methods), from any state, the ids that the successive
  \<open>createFile\<close> calls return are strictly increasing, and so no id is returned twice,
  whatever was deleted in between.
\<close>

theorem created_ids_strictly_increasing:
  "sorted_wrt (<) (created_ids cs s) \<and> distinct (created_ids cs s)"
  using created_ids_increasing [of cs s] by (simp add: strict_sorted_iff)

subsection \<open>Sorting by a key, descending\<close>

lemma set_sort_insert: "set (sort_insert cmp x xs) = insert x (set xs)"
  by (induction xs) auto

lemma sorted_sort_insert:
  "sorted_wrt (\<lambda>a b. k b \<le> k a) xs \<Longrightarrow>
   sorted_wrt (\<lambda>a b. k b \<le> k a) (sort_insert (\<lambda>a b. k b - k a) x xs)"
  for k :: "'a \<Rightarrow> int"
  by (induction xs) (auto simp: set_sort_insert)

lemma sorted_Array_sort:
  "sorted_wrt (\<lambda>a b. k b \<le> k a) (Array_sort (\<lambda>a b. k b - k a) xs)"
  for k :: "'a \<Rightarrow> int"
  by (induction xs) (auto simp: sorted_sort_insert)

text \<open>
  Stability: an inserted element passes only elements with a strictly greater key, so
  the elements of any one key keep the order they had.
\<close>

lemma filter_sort_insert:
  "filter (\<lambda>y. k y = t) (sort_insert (\<lambda>a b. k b - k a) x xs) =
   (if k x = t then x # filter (\<lambda>y. k y = t) xs else filter (\<lambda>y. k y = t) xs)"
  for k :: "'a \<Rightarrow> int"
  by (induction xs) auto

lemma filter_Array_sort:
  "filter (\<lambda>y. k y = t) (Array_sort (\<lambda>a b. k b - k a) xs) = filter (\<lambda>y. k y = t) xs"
  for k :: "'a \<Rightarrow> int"
  by (induction xs) (auto simp: filter_sort_insert)

lemma getAllFiles_three:
  assumes "files s = []" and "tA < tB" and "tB < tC"
  shows "fst (getAllFiles (snd (createFile dC tC (snd (createFile dB tB
           (snd (createFile dA tA s))))))) =
    [fst (createFile dC tC (snd (createFile dB tB (snd (createFile dA tA s))))),
     fst (createFile dB tB (snd (createFile dA tA s))),
     fst (createFile dA tA s)]"
  using assms by (simp add: getAllFiles_def createFile_def Let_def Map_values_def)

text \<open>
  C3, as the specification states it, fails where two records carry the same timestamp:
  two records created at the same clock reading 5 on a new store come back in insertion
  order, ids 1 then 2, not with the later-created record first.
\<close>

theorem getAllFiles_tie_counterexample:
  "map id_f (fst (getAllFiles
      (exec [CreateFile draftA 5, CreateFile draftB 5] MemStorage_new))) = [1, 2]
   \<and> map uploadedAt (fst (getAllFiles
      (exec [CreateFile draftA 5, CreateFile draftB 5] MemStorage_new))) = [5, 5]
   \<and> map id_f (fst (getAllFiles
      (exec [CreateFile draftA 5, CreateFile draftB 5] MemStorage_new))) \<noteq> [2, 1]"
  by (simp add: getAllFiles_def createFile_def Let_def Map_values_def MemStorage_new_def
      draftA_def draftB_def)

text \<open>
  C3, amended. In every state of the store \<open>getAllFiles\<close> returns the live records,
  each once, ordered by \<open>uploadedAt\<close> descending; records with equal \<open>uploadedAt\<close>
  keep their insertion order (the earlier-created record comes first), for the sort is
  stable. In particular, creating A, B, C in that order on an empty store, with
  strictly increasing timestamps, yields [C, B, A].
\<close>

theorem getAllFiles_order:
  "mset (fst (getAllFiles s)) = mset (Map_values (files s))
   \<and> sorted_wrt (\<lambda>a b. uploadedAt b \<le> uploadedAt a) (fst (getAllFiles s))
   \<and> filter (\<lambda>f. uploadedAt f = t) (fst (getAllFiles s)) =
       filter (\<lambda>f. uploadedAt f = t) (Map_values (files s))
   \<and> (files s = [] \<and> tA < tB \<and> tB < tC \<longrightarrow>
       fst (getAllFiles (snd (createFile dC tC (snd (createFile dB tB
         (snd (createFile dA tA s))))))) =
        [fst (createFile dC tC (snd (createFile dB tB (snd (createFile dA tA s))))),
         fst (createFile dB tB (snd (createFile dA tA s))),
         fst (createFile dA tA s)])"
  using getAllFiles_three [of s tA tB tC dC dB dA]
  by (simp add: getAllFiles_def mset_Array_sort sorted_Array_sort filter_Array_sort)

theorem getAllFiles_order_witness:
  "map id_f (fst (getAllFiles
      (exec [CreateFile draftA 10, CreateFile draftB 20, CreateFile draftC 30] MemStorage_new)))
     = [3, 2, 1]
   \<and> map id_f (filter (\<lambda>f. uploadedAt f = 5) (fst (getAllFiles
      (exec [CreateFile draftA 5, CreateFile draftB 9, CreateFile draftC 5] MemStorage_new))))
     = [1, 3]"
  using getAllFiles_order [of MemStorage_new 5 10 20 30 draftC draftB draftA]
    getAllFiles_order
      [of "exec [CreateFile draftA 5, CreateFile draftB 9, CreateFile draftC 5] MemStorage_new" 5]
  by (simp add: createFile_def Let_def Map_values_def MemStorage_new_def
      draftA_def draftB_def draftC_def)

subsection \<open>Lookup by share id\<close>

lemma Array_find_None: "Array_find p xs = None \<longleftrightarrow> (\<forall>x\<in>set xs. \<not> p x)"
  by (induction xs) auto

text \<open>
  \<open>find\<close> returns \<open>x\<close> exactly when \<open>x\<close> satisfies the predicate and stands in the
  array behind a prefix of elements that do not.
\<close>

lemma Array_find_Some:
  "Array_find p xs = Some x \<longleftrightarrow>
   p x \<and> (\<exists>pre post. xs = pre @ x # post \<and> (\<forall>y\<in>set pre. \<not> p y))"
proof (induction xs)
  case Nil
  then show ?case by simp
next
  case (Cons a xs)
  show ?case
  proof (cases "p a")
    case True
    have "a = x" if "a # xs = pre @ x # post" and "\<forall>y\<in>set pre. \<not> p y" for pre post
      using that True by (cases pre) auto
    moreover have "\<exists>pre post. a # xs = pre @ a # post \<and> (\<forall>y\<in>set pre. \<not> p y)"
      by (rule exI [of _ "[]"]) simp
    ultimately show ?thesis using True by auto
  next
    case False
    have "(\<exists>pre post. a # xs = pre @ x # post \<and> (\<forall>y\<in>set pre. \<not> p y)) \<longleftrightarrow>
          (\<exists>pre post. xs = pre @ x # post \<and> (\<forall>y\<in>set pre. \<not> p y))" if "p x"
    proof
      assume "\<exists>pre post. a # xs = pre @ x # post \<and> (\<forall>y\<in>set pre. \<not> p y)"
      then obtain pre post where h: "a # xs = pre @ x # post" "\<forall>y\<in>set pre. \<not> p y"
        by blast
      with False that obtain pre' where "pre = a # pre'"
        by (cases pre) auto
      with h show "\<exists>pre post. xs = pre @ x # post \<and> (\<forall>y\<in>set pre. \<not> p y)"
        by auto
    next
      assume "\<exists>pre post. xs = pre @ x # post \<and> (\<forall>y\<in>set pre. \<not> p y)"
      then obtain pre post where h: "xs = pre @ x # post" "\<forall>y\<in>set pre. \<not> p y"
        by blast
      with False have "a # xs = (a # pre) @ x # post \<and> (\<forall>y\<in>set (a # pre). \<not> p y)"
        by simp
      then show "\<exists>pre post. a # xs = pre @ x # post \<and> (\<forall>y\<in>set pre. \<not> p y)"
        by blast
    qed
    with False Cons show ?thesis by auto
  qed
qed

text \<open>
  C4. In every state and for every string \<open>sid\<close>, \<open>getFileByShareId sid\<close> returns
  \<open>undefined\<close> when no live record has that share id, and otherwise a live record whose
  share id is \<open>sid\<close>, namely the first one in the map's insertion order: no record
  before it has that share id. The call leaves the store as it was.
\<close>

theorem getFileByShareId_first_match:
  "(case fst (getFileByShareId sid s) of
      None \<Rightarrow> \<forall>f\<in>set (Map_values (files s)). shareId f \<noteq> sid
    | Some f \<Rightarrow> shareId f = sid
        \<and> (\<exists>pre post. Map_values (files s) = pre @ f # post
              \<and> (\<forall>g\<in>set pre. shareId g \<noteq> sid)))
   \<and> snd (getFileByShareId sid s) = s"
  by (auto simp: getFileByShareId_def Array_find_None Array_find_Some split: option.splits)

text \<open>
  On the store holding drafts A, B, C, where A and C share the share id, the lookup
  returns A (id 1); a share id that no record has is not found.
\<close>

theorem getFileByShareId_first_match_witness:
  "map_option id_f (fst (getFileByShareId ''abc123''
      (exec [CreateFile draftA 1, CreateFile draftB 2, CreateFile draftC 3] MemStorage_new)))
     = Some 1
   \<and> fst (getFileByShareId ''zzz''
      (exec [CreateFile draftA 1, CreateFile draftB 2, CreateFile draftC 3] MemStorage_new))
     = None"
  using getFileByShareId_first_match [where sid = "''abc123''" and
      s = "exec [CreateFile draftA 1, CreateFile draftB 2, CreateFile draftC 3] MemStorage_new"]
    getFileByShareId_first_match [where sid = "''zzz''" and
      s = "exec [CreateFile draftA 1, CreateFile draftB 2, CreateFile draftC 3] MemStorage_new"]
  by (simp add: getFileByShareId_def createFile_def Let_def Map_values_def MemStorage_new_def
      draftA_def draftB_def draftC_def)

subsection \<open>Creating a record\<close>

lemma Map_get_Map_set:
  "Map_get k' (Map_set k v m) = (if k' = k then Some v else Map_get k' m)"
  by (induction m) auto

lemma Map_set_fresh: "k \<notin> set (Map_keys m) \<Longrightarrow> Map_set k v m = m @ [(k, v)]"
  by (induction m) (auto simp: Map_keys_def)

lemma wf_fresh: "wf s \<Longrightarrow> currentId s \<notin> set (Map_keys (files s))"
  by (auto simp: wf_def Map_keys_def list_all_iff)

text \<open>
  C5. \<open>createFile\<close> returns the draft's five fields together with the next id (the
  counter's value), the clock reading as \<open>uploadedAt\<close>, and both counters at 0; it
  advances the counter by exactly 1; the returned record is stored under its id and no
  other key changes; in a state that satisfies the store's invariant the record is
  appended as the newest entry. The function is total: it has no error result.
\<close>

theorem createFile_contract:
  "fst (createFile d now s) =
      \<lparr>filename = filename d, originalName = originalName d, mimeType = mimeType d,
       size_f = size_f d, shareId = shareId d,
       id_f = currentId s, uploadedAt = now, views = 0, downloads = 0\<rparr>
   \<and> currentId (snd (createFile d now s)) = currentId s + 1
   \<and> Map_get (currentId s) (files (snd (createFile d now s))) = Some (fst (createFile d now s))
   \<and> (k \<noteq> currentId s \<longrightarrow>
        Map_get k (files (snd (createFile d now s))) = Map_get k (files s))
   \<and> (wf s \<longrightarrow>
        files (snd (createFile d now s)) = files s @ [(currentId s, fst (createFile d now s))])"
  using Map_set_fresh [OF wf_fresh, of s]
  by (simp add: createFile_def Let_def Map_get_Map_set)

theorem createFile_contract_witness:
  "wf MemStorage_new \<and> 0 \<noteq> currentId MemStorage_new
   \<and> fst (createFile draftA 1700000000000 MemStorage_new) =
      \<lparr>filename = ''f1.png'', originalName = ''photo.png'', mimeType = ''image/png'',
       size_f = 2048, shareId = ''abc123'',
       id_f = 1, uploadedAt = 1700000000000, views = 0, downloads = 0\<rparr>
   \<and> currentId (snd (createFile draftA 1700000000000 MemStorage_new)) = 2
   \<and> Map_keys (files (snd (createFile draftA 1700000000000 MemStorage_new))) = [1]
   \<and> Map_get 0 (files (snd (createFile draftA 1700000000000 MemStorage_new))) = None"
  using createFile_contract [of draftA 1700000000000 MemStorage_new 0]
  by (simp add: createFile_def Let_def MemStorage_new_def draftA_def wf_def Map_keys_def)

lemma Array_find_Map_set:
  "p v \<Longrightarrow> \<forall>x\<in>set (Map_values m). \<not> p x \<Longrightarrow>
   Array_find p (Map_values (Map_set k v m)) = Some v"
  by (induction m) (auto simp: Map_values_def)

text \<open>
  C9. Round trip at the public key: in a state where no live record has the draft's
  share id, \<open>createFile\<close> followed by \<open>getFileByShareId\<close> with that share id returns
  exactly the record that \<open>createFile\<close> returned.
\<close>

theorem createFile_getFileByShareId:
  "(\<forall>f\<in>set (Map_values (files s)). shareId f \<noteq> shareId d) \<Longrightarrow>
   fst (getFileByShareId (shareId d) (snd (createFile d now s)))
     = Some (fst (createFile d now s))"
  by (simp add: getFileByShareId_def createFile_def Let_def Array_find_Map_set)

theorem createFile_getFileByShareId_witness:
  "list_all (\<lambda>f. shareId f \<noteq> shareId draftB)
      (Map_values (files (snd (createFile draftA 5 MemStorage_new))))
   \<and> fst (getFileByShareId ''def456''
        (snd (createFile draftB 9 (snd (createFile draftA 5 MemStorage_new)))))
     = Some \<lparr>filename = ''f2.pdf'', originalName = ''notes.pdf'',
             mimeType = ''application/pdf'', size_f = 512, shareId = ''def456'',
             id_f = 2, uploadedAt = 9, views = 0, downloads = 0\<rparr>"
  using createFile_getFileByShareId [of "snd (createFile draftA 5 MemStorage_new)" draftB 9]
  by (simp add: createFile_def Let_def MemStorage_new_def draftA_def draftB_def Map_values_def)

text \<open>
  C10. \<open>getAllFiles\<close> and \<open>getStats\<close> leave the store unchanged: the state after
  either call is the state before it, so the map (the live records, with every field,
  in their order) and the id counter are the same.
\<close>

theorem reads_leave_store_unchanged:
  "snd (getAllFiles s) = s \<and> snd (getStats s) = s
   \<and> files (snd (getAllFiles s)) = files s \<and> currentId (snd (getAllFiles s)) = currentId s
   \<and> files (snd (getStats s)) = files s \<and> currentId (snd (getStats s)) = currentId s"
  by (simp add: getAllFiles_def getStats_def Let_def)

subsection \<open>The invariant\<close>

text \<open>
  The invariant holds in the new store and every call preserves it, so it holds in every
  state that a sequence of calls reaches.
\<close>

lemma wf_new: "wf MemStorage_new"
  by (simp add: wf_def MemStorage_new_def Map_keys_def)

lemma keys_Map_set_present:
  "Map_get k m = Some v0 \<Longrightarrow> Map_keys (Map_set k v m) = Map_keys m"
  by (induction m) (auto simp: Map_keys_def)

lemma Map_get_Some_mem: "Map_get k m = Some v \<Longrightarrow> (k, v) \<in> set m"
  by (induction m) (auto split: if_splits)

lemma set_Map_set: "set (Map_set k v m) \<subseteq> insert (k, v) (set m)"
  by (induction m) (auto split: if_splits)

lemma Map_delete_filter: "Map_delete k m = filter (\<lambda>p. fst p \<noteq> k) m"
  by (induction m) auto

lemma wf_createFile: "wf s \<Longrightarrow> wf (snd (createFile d now s))"
  using Map_set_fresh [OF wf_fresh, of s]
  by (auto simp: createFile_def Let_def wf_def Map_keys_def list_all_iff)

lemma wf_Map_set_present:
  assumes "wf s" and "Map_get i (files s) = Some f" and "id_f f' = id_f f"
  shows "wf (s\<lparr>files := Map_set i f' (files s)\<rparr>)"
proof -
  have "id_f f = i \<and> i < currentId s"
    using assms(1) Map_get_Some_mem [OF assms(2)] by (auto simp: wf_def list_all_iff)
  then show ?thesis
    using assms set_Map_set [of i f' "files s"]
    by (auto simp: wf_def list_all_iff keys_Map_set_present)
qed

lemma wf_incrementViews: "wf s \<Longrightarrow> wf (incrementViews i s)"
  by (auto simp: incrementViews_def wf_Map_set_present split: option.splits)

lemma wf_incrementDownloads: "wf s \<Longrightarrow> wf (incrementDownloads i s)"
  by (auto simp: incrementDownloads_def wf_Map_set_present split: option.splits)

lemma wf_deleteFile: "wf s \<Longrightarrow> wf (deleteFile i s)"
  by (auto simp: deleteFile_def wf_def list_all_iff Map_delete_filter Map_keys_def
      distinct_map_filter)

lemma wf_step: "wf s \<Longrightarrow> wf (step c s)"
  by (cases c)
     (simp_all add: wf_createFile wf_incrementViews wf_incrementDownloads wf_deleteFile
        getFileByShareId_def getAllFiles_def getStats_def Let_def)

lemma wf_exec: "wf s \<Longrightarrow> wf (exec cs s)"
  by (induction cs arbitrary: s) (auto simp: wf_step)

lemma wf_reachable: "wf (exec cs MemStorage_new)"
  by (rule wf_exec [OF wf_new])

subsection \<open>One record through a call\<close>

lemma Map_get_Map_delete:
  "Map_get k' (Map_delete k m) = (if k' = k then None else Map_get k' m)"
  by (induction m) auto

lemma Map_delete_absent: "Map_get k m = None \<Longrightarrow> Map_delete k m = m"
  by (induction m) (auto split: if_splits)

lemma Map_delete_idem: "Map_delete k (Map_delete k m) = Map_delete k m"
  by (induction m) auto

lemma wf_live_below:
  "wf s \<Longrightarrow> Map_get i (files s) = Some f \<Longrightarrow> id_f f = i \<and> i < currentId s"
  using Map_get_Some_mem [of i "files s" f] by (auto simp: wf_def list_all_iff)

text \<open>
  What one call does to the record stored under \<open>i\<close>: \<open>deleteFile i\<close> removes it,
  \<open>incrementViews i\<close> and \<open>incrementDownloads i\<close> add 1 to their counter, and every
  other call leaves the record as it is.
\<close>

lemma step_record:
  assumes "wf s" and "Map_get i (files s) = Some f"
  shows "Map_get i (files (step c s)) =
    (if c = DeleteFile i then None
     else Some (f\<lparr>views := views f + (if c = IncrementViews i then 1 else 0),
                  downloads := downloads f + (if c = IncrementDownloads i then 1 else 0)\<rparr>))"
proof (cases c)
  case (CreateFile d now)
  have "i \<noteq> currentId s" using wf_live_below [OF assms] by simp
  with assms(2) CreateFile show ?thesis
    by (simp add: createFile_def Let_def Map_get_Map_set)
next
  case (GetFileByShareId sid)
  with assms(2) show ?thesis by (simp add: getFileByShareId_def)
next
  case GetAllFiles
  with assms(2) show ?thesis by (simp add: getAllFiles_def)
next
  case (IncrementViews j)
  with assms(2) show ?thesis
    by (cases "Map_get j (files s)") (auto simp: incrementViews_def Map_get_Map_set)
next
  case (IncrementDownloads j)
  with assms(2) show ?thesis
    by (cases "Map_get j (files s)") (auto simp: incrementDownloads_def Map_get_Map_set)
next
  case (DeleteFile j)
  with assms(2) show ?thesis by (simp add: deleteFile_def Map_get_Map_delete)
next
  case GetStats
  with assms(2) show ?thesis by (simp add: getStats_def Let_def)
qed

lemma exec_record:
  "wf s \<Longrightarrow> Map_get i (files s) = Some f \<Longrightarrow> DeleteFile i \<notin> set cs \<Longrightarrow>
   Map_get i (files (exec cs s)) =
     Some (f\<lparr>views := views f + int (count_list cs (IncrementViews i)),
              downloads := downloads f + int (count_list cs (IncrementDownloads i))\<rparr>)"
proof (induction cs arbitrary: s f)
  case Nil
  then show ?case by simp
next
  case (Cons c cs)
  let ?f1 = "f\<lparr>views := views f + (if c = IncrementViews i then 1 else 0),
                downloads := downloads f + (if c = IncrementDownloads i then 1 else 0)\<rparr>"
  have c: "c \<noteq> DeleteFile i" using Cons.prems(3) by auto
  have "wf (step c s)" by (rule wf_step [OF Cons.prems(1)])
  moreover have "Map_get i (files (step c s)) = Some ?f1"
    using step_record [OF Cons.prems(1,2), of c] c by simp
  moreover have "DeleteFile i \<notin> set cs" using Cons.prems(3) by simp
  ultimately have "Map_get i (files (exec cs (step c s))) =
     Some (?f1\<lparr>views := views ?f1 + int (count_list cs (IncrementViews i)),
              downloads := downloads ?f1 + int (count_list cs (IncrementDownloads i))\<rparr>)"
    by (rule Cons.IH)
  then show ?case by simp
qed

lemma incrementViews_absent: "Map_get i (files s) = None \<Longrightarrow> incrementViews i s = s"
  by (simp add: incrementViews_def)

lemma incrementDownloads_absent: "Map_get i (files s) = None \<Longrightarrow> incrementDownloads i s = s"
  by (simp add: incrementDownloads_def)

lemma incrementViews_present:
  "Map_get i (files s) = Some f \<Longrightarrow>
   Map_get k (files (incrementViews i s)) =
     (if k = i then Some (f\<lparr>views := views f + 1\<rparr>) else Map_get k (files s))"
  by (simp add: incrementViews_def Map_get_Map_set)

lemma incrementDownloads_present:
  "Map_get i (files s) = Some f \<Longrightarrow>
   Map_get k (files (incrementDownloads i s)) =
     (if k = i then Some (f\<lparr>downloads := downloads f + 1\<rparr>) else Map_get k (files s))"
  by (simp add: incrementDownloads_def Map_get_Map_set)

text \<open>
  C6. When a record is stored under \<open>i\<close>, \<open>incrementViews i\<close> adds exactly 1 to its
  \<open>views\<close> and \<open>incrementDownloads i\<close> adds exactly 1 to its \<open>downloads\<close>, the
  record's other fields and every other record staying as they are; when no record is
  stored under \<open>i\<close>, either call returns the store unchanged, without an error. Neither
  call moves the id counter. Consequently, through any sequence of calls that does not
  delete \<open>i\<close>, the \<open>views\<close> of record \<open>i\<close> grow by exactly the number of
  \<open>incrementViews i\<close> calls in the sequence (and its \<open>downloads\<close> by the number of
  \<open>incrementDownloads i\<close> calls), whatever the other calls are.
\<close>

theorem increment_counters:
  "(Map_get i (files s) = Some f \<longrightarrow>
      Map_get i (files (incrementViews i s)) = Some (f\<lparr>views := views f + 1\<rparr>)
    \<and> Map_get i (files (incrementDownloads i s)) = Some (f\<lparr>downloads := downloads f + 1\<rparr>)
    \<and> (k \<noteq> i \<longrightarrow> Map_get k (files (incrementViews i s)) = Map_get k (files s)
                \<and> Map_get k (files (incrementDownloads i s)) = Map_get k (files s)))
   \<and> (Map_get i (files s) = None \<longrightarrow> incrementViews i s = s \<and> incrementDownloads i s = s)
   \<and> currentId (incrementViews i s) = currentId s
   \<and> currentId (incrementDownloads i s) = currentId s
   \<and> (wf s \<and> Map_get i (files s) = Some f \<and> DeleteFile i \<notin> set cs \<longrightarrow>
        Map_get i (files (exec cs s)) =
          Some (f\<lparr>views := views f + int (count_list cs (IncrementViews i)),
                   downloads := downloads f + int (count_list cs (IncrementDownloads i))\<rparr>))"
  using exec_record [of s i f cs]
  by (simp add: incrementViews_absent incrementDownloads_absent incrementViews_present
      incrementDownloads_present currentId_incrementViews currentId_incrementDownloads)

text \<open>
  On the store holding A (id 1) and B (id 2): three \<open>incrementViews 1\<close> calls,
  interleaved with calls on other ids, a delete of 2 and a create, leave record 1 with 3
  views; \<open>incrementViews 7\<close> changes nothing.
\<close>

theorem increment_counters_witness:
  "wf storeAB \<and> Map_get 1 (files storeAB) = Some fileA \<and> views fileA = 0
   \<and> map_option views (Map_get 1 (files (incrementViews 1 storeAB))) = Some 1
   \<and> map_option downloads (Map_get 1 (files (incrementDownloads 1 storeAB))) = Some 1
   \<and> Map_get 7 (files storeAB) = None \<and> incrementViews 7 storeAB = storeAB
   \<and> map_option views (Map_get 1 (files (exec
        [IncrementViews 1, IncrementViews 2, IncrementDownloads 1, DeleteFile 2,
         IncrementViews 1, CreateFile draftC 3, IncrementViews 1, IncrementViews 7]
        storeAB))) = Some 3"
  using increment_counters [of 1 storeAB fileA 2
        "[IncrementViews 1, IncrementViews 2, IncrementDownloads 1, DeleteFile 2,
          IncrementViews 1, CreateFile draftC 3, IncrementViews 1, IncrementViews 7]"]
    increment_counters [of 7 storeAB fileA 1 "[]"]
  by (simp add: storeAB_def fileA_def createFile_def Let_def MemStorage_new_def
      draftA_def draftB_def wf_def Map_keys_def)

subsection \<open>Deleting\<close>

lemma deleteFile_ids:
  assumes "wf s"
  shows "\<forall>f\<in>set (Map_values (files (deleteFile i s))). id_f f \<noteq> i"
proof
  fix f assume "f \<in> set (Map_values (files (deleteFile i s)))"
  then obtain k where "(k, f) \<in> set (files s)" and "k \<noteq> i"
    by (auto simp: deleteFile_def Map_delete_filter Map_values_def)
  with assms show "id_f f \<noteq> i" by (auto simp: wf_def list_all_iff)
qed

lemma set_getAllFiles: "set (fst (getAllFiles s)) = set (Map_values (files s))"
  using mset_Array_sort [of "\<lambda>a b. uploadedAt b - uploadedAt a" "Map_values (files s)"]
  by (metis fst_conv getAllFiles_def set_mset_mset)

lemma getFileByShareId_mem:
  "fst (getFileByShareId sid s) = Some f \<Longrightarrow> f \<in> set (Map_values (files s))"
  by (auto simp: getFileByShareId_def Array_find_Some)

lemma deleteFile_lookup_None:
  assumes "\<forall>(k, g)\<in>set (files s). k \<noteq> i \<longrightarrow> shareId g \<noteq> sid"
  shows "fst (getFileByShareId sid (deleteFile i s)) = None"
  using assms
  by (auto simp: getFileByShareId_def Array_find_None deleteFile_def Map_delete_filter
      Map_values_def)

text \<open>
  C7, amended. \<open>deleteFile i\<close> removes the record stored under \<open>i\<close> and nothing else:
  afterwards no record is stored under \<open>i\<close>, every other key holds what it held, and the
  id counter is the same; when no record is stored under \<open>i\<close> the store is unchanged, so
  a repeated delete is a no-op; the call returns no data and has no error result. In a
  state that satisfies the store's invariant, \<open>getAllFiles\<close> afterwards holds no
  record with id \<open>i\<close> and \<open>getFileByShareId\<close> never returns one; a lookup by a share
  id returns not-found afterwards when no other live record carries that share id.
\<close>

theorem deleteFile_contract:
  "Map_get i (files (deleteFile i s)) = None
   \<and> (k \<noteq> i \<longrightarrow> Map_get k (files (deleteFile i s)) = Map_get k (files s))
   \<and> currentId (deleteFile i s) = currentId s
   \<and> (Map_get i (files s) = None \<longrightarrow> deleteFile i s = s)
   \<and> deleteFile i (deleteFile i s) = deleteFile i s
   \<and> (wf s \<longrightarrow> (\<forall>f\<in>set (fst (getAllFiles (deleteFile i s))). id_f f \<noteq> i)
         \<and> (\<forall>f. fst (getFileByShareId sid (deleteFile i s)) = Some f \<longrightarrow> id_f f \<noteq> i))
   \<and> ((\<forall>(k, g)\<in>set (files s). k \<noteq> i \<longrightarrow> shareId g \<noteq> sid) \<longrightarrow>
        fst (getFileByShareId sid (deleteFile i s)) = None)"
proof -
  have "Map_get i (files (deleteFile i s)) = None"
    and "k \<noteq> i \<longrightarrow> Map_get k (files (deleteFile i s)) = Map_get k (files s)"
    and "currentId (deleteFile i s) = currentId s"
    and "deleteFile i (deleteFile i s) = deleteFile i s"
    by (simp_all add: deleteFile_def Map_get_Map_delete Map_delete_idem)
  moreover have "Map_get i (files s) = None \<longrightarrow> deleteFile i s = s"
    by (simp add: deleteFile_def Map_delete_absent)
  moreover have "wf s \<longrightarrow> (\<forall>f\<in>set (fst (getAllFiles (deleteFile i s))). id_f f \<noteq> i)
         \<and> (\<forall>f. fst (getFileByShareId sid (deleteFile i s)) = Some f \<longrightarrow> id_f f \<noteq> i)"
    using deleteFile_ids [of s i] getFileByShareId_mem [of sid "deleteFile i s"]
    by (auto simp: set_getAllFiles)
  moreover have "(\<forall>(k, g)\<in>set (files s). k \<noteq> i \<longrightarrow> shareId g \<noteq> sid) \<longrightarrow>
        fst (getFileByShareId sid (deleteFile i s)) = None"
    using deleteFile_lookup_None [of s i sid] by blast
  ultimately show ?thesis by blast
qed

text \<open>
  C7, as the specification states it, fails where another live record carries the
  deleted record's share id (the store does not enforce uniqueness): with A (id 1) and C
  (id 2) both under the share id abc123, after \<open>deleteFile 1\<close> the lookup of abc123 is
  not not-found, it returns record 2.
\<close>

theorem deleteFile_duplicate_shareId_counterexample:
  "map_option shareId (Map_get 1 (files storeAC)) = Some ''abc123''
   \<and> map_option id_f (fst (getFileByShareId ''abc123'' (deleteFile 1 storeAC))) = Some 2
   \<and> fst (getFileByShareId ''abc123'' (deleteFile 1 storeAC)) \<noteq> None"
  by (simp add: storeAC_def getFileByShareId_def deleteFile_def createFile_def Let_def
      MemStorage_new_def draftA_def draftC_def Map_values_def)

theorem deleteFile_contract_witness:
  "wf storeAB \<and> Map_get 1 (files storeAB) = Some fileA \<and> shareId fileA = ''abc123''
   \<and> list_all (\<lambda>(k, g). k = 1 \<or> shareId g \<noteq> ''abc123'') (files storeAB)
   \<and> fst (getFileByShareId ''abc123'' (deleteFile 1 storeAB)) = None
   \<and> map id_f (fst (getAllFiles (deleteFile 1 storeAB))) = [2]
   \<and> Map_get 7 (files storeAB) = None \<and> deleteFile 7 storeAB = storeAB
   \<and> deleteFile 1 (deleteFile 1 storeAB) = deleteFile 1 storeAB"
  using deleteFile_contract [of 1 storeAB 2 "''abc123''"]
    deleteFile_contract [of 7 storeAB 1 "''abc123''"]
  by (simp add: storeAB_def fileA_def getFileByShareId_def getAllFiles_def deleteFile_def
      createFile_def Let_def MemStorage_new_def draftA_def draftB_def Map_values_def wf_def
      Map_keys_def)

subsection \<open>Counters\<close>

lemma absent_step:
  assumes "i < currentId s" and "Map_get i (files s) = None"
  shows "Map_get i (files (step c s)) = None"
proof (cases c)
  case (CreateFile d now)
  with assms show ?thesis by (simp add: createFile_def Let_def Map_get_Map_set)
next
  case (IncrementViews j)
  with assms(2) show ?thesis
    by (cases "Map_get j (files s)") (auto simp: incrementViews_def Map_get_Map_set)
next
  case (IncrementDownloads j)
  with assms(2) show ?thesis
    by (cases "Map_get j (files s)") (auto simp: incrementDownloads_def Map_get_Map_set)
next
  case (DeleteFile j)
  with assms(2) show ?thesis by (simp add: deleteFile_def Map_get_Map_delete)
qed (use assms(2) in \<open>simp_all add: getFileByShareId_def getAllFiles_def getStats_def Let_def\<close>)

lemma absent_exec:
  "i < currentId s \<Longrightarrow> Map_get i (files s) = None \<Longrightarrow> Map_get i (files (exec cs s)) = None"
proof (induction cs arbitrary: s)
  case Nil
  then show ?case by simp
next
  case (Cons c cs)
  have "i < currentId (step c s)" using Cons.prems(1) currentId_step [of s c] by simp
  then show ?case using Cons.IH absent_step [OF Cons.prems] by simp
qed

lemma step_monotone:
  assumes "wf s" and "Map_get i (files s) = Some f" and "Map_get i (files (step c s)) = Some f'"
  shows "views f \<le> views f' \<and> downloads f \<le> downloads f'"
  using step_record [OF assms(1,2), of c] assms(3) by (auto split: if_splits)

lemma exec_monotone:
  "wf s \<Longrightarrow> Map_get i (files s) = Some f \<Longrightarrow> Map_get i (files (exec cs s)) = Some f' \<Longrightarrow>
   views f \<le> views f' \<and> downloads f \<le> downloads f'"
proof (induction cs arbitrary: s f)
  case Nil
  then show ?case by simp
next
  case (Cons c cs)
  show ?case
  proof (cases "Map_get i (files (step c s))")
    case None
    have "i < currentId (step c s)"
      using wf_live_below [OF Cons.prems(1,2)] currentId_step [of s c] by simp
    then have "Map_get i (files (exec cs (step c s))) = None"
      using None by (rule absent_exec)
    with Cons.prems(3) show ?thesis by simp
  next
    case (Some f1)
    have "views f \<le> views f1 \<and> downloads f \<le> downloads f1"
      using Cons.prems(1,2) Some by (rule step_monotone)
    moreover have "views f1 \<le> views f' \<and> downloads f1 \<le> downloads f'"
      using wf_step [OF Cons.prems(1)] Some Cons.prems(3) Cons.IH [of "step c s" f1] by simp
    ultimately show ?thesis by simp
  qed
qed

text \<open>
  C8. A record is created with both counters at 0, and in every state that satisfies the
  store's invariant (so in every reachable state), for every call of the seven methods
  and for every sequence of calls, a record that is live before and after has \<open>views\<close>
  and \<open>downloads\<close> after that are at least those before.
\<close>

theorem counters_never_decrease:
  "views (fst (createFile d now s)) = 0 \<and> downloads (fst (createFile d now s)) = 0
   \<and> (wf s \<and> Map_get i (files s) = Some f \<and> Map_get i (files (step c s)) = Some f' \<longrightarrow>
        views f \<le> views f' \<and> downloads f \<le> downloads f')
   \<and> (wf s \<and> Map_get i (files s) = Some f \<and> Map_get i (files (exec cs s)) = Some f'' \<longrightarrow>
        views f \<le> views f'' \<and> downloads f \<le> downloads f'')"
  using step_monotone [of s i f c f'] exec_monotone [of s i f cs f'']
  by (simp add: createFile_def Let_def)

theorem counters_never_decrease_witness:
  "wf storeAB \<and> Map_get 1 (files storeAB) = Some fileA
   \<and> Map_get 1 (files (step (IncrementViews 1) storeAB)) = Some (fileA\<lparr>views := 1\<rparr>)
   \<and> Map_get 1 (files (exec
        [IncrementViews 1, DeleteFile 2, IncrementDownloads 1, GetStats, IncrementViews 1,
         CreateFile draftC 3] storeAB)) = Some fileA_later
   \<and> views fileA \<le> views fileA_later \<and> downloads fileA \<le> downloads fileA_later
   \<and> views fileA = 0 \<and> views fileA_later = 2"
  using counters_never_decrease [of draftA 1 storeAB 1 fileA "IncrementViews 1"
      "fileA\<lparr>views := 1\<rparr>"
      "[IncrementViews 1, DeleteFile 2, IncrementDownloads 1, GetStats, IncrementViews 1,
         CreateFile draftC 3]" fileA_later]
  by (simp add: storeAB_def fileA_def fileA_later_def createFile_def Let_def MemStorage_new_def
      draftA_def draftB_def draftC_def wf_def Map_keys_def incrementViews_def
      incrementDownloads_def deleteFile_def getStats_def)

subsection \<open>Statistics\<close>

text \<open>
  \<open>getStats\<close> in terms of the map itself: the number of entries, and the sums of the
  three fields over the stored records.
\<close>

lemma getStats_files:
  "fst (getStats s) =
     \<lparr>totalFiles = length (files s),
      totalViews = sum_list (map (\<lambda>(k, f). views f) (files s)),
      totalDownloads = sum_list (map (\<lambda>(k, f). downloads f) (files s)),
      totalSize = sum_list (map (\<lambda>(k, f). size_f f) (files s))\<rparr>"
  by (simp add: getStats_def Let_def Array_reduce_sum Map_values_def comp_def case_prod_unfold)

lemma files_createFile:
  "wf s \<Longrightarrow> files (snd (createFile d now s)) = files s @ [(currentId s, fst (createFile d now s))]"
  using Map_set_fresh [OF wf_fresh, of s]
  by (simp add: createFile_def Let_def)

lemma getStats_createFile:
  assumes "wf s"
  shows "fst (getStats (snd (createFile d now s))) =
     \<lparr>totalFiles = totalFiles (fst (getStats s)) + 1,
      totalViews = totalViews (fst (getStats s)),
      totalDownloads = totalDownloads (fst (getStats s)),
      totalSize = totalSize (fst (getStats s)) + size_f d\<rparr>"
  unfolding getStats_files files_createFile [OF assms]
  by (simp add: createFile_def Let_def)

lemma Map_get_absent_keys: "k \<notin> set (Map_keys m) \<Longrightarrow> Map_get k m = None"
  by (induction m) (auto simp: Map_keys_def)

text \<open>
  In a map with distinct keys, deleting a live key removes exactly its one entry.
\<close>

lemma Map_delete_present:
  "distinct (Map_keys m) \<Longrightarrow> Map_get i m = Some f \<Longrightarrow>
   \<exists>pre post. m = pre @ (i, f) # post \<and> Map_delete i m = pre @ post"
proof (induction m)
  case Nil
  then show ?case by simp
next
  case (Cons a m)
  obtain k' v' where a: "a = (k', v')" by (cases a)
  show ?case
  proof (cases "k' = i")
    case True
    with Cons.prems a have "v' = f" and "i \<notin> set (Map_keys m)"
      by (simp_all add: Map_keys_def)
    then have "Map_delete i m = m"
      by (simp add: Map_delete_absent Map_get_absent_keys)
    with a True \<open>v' = f\<close> have "a # m = [] @ (i, f) # m \<and> Map_delete i (a # m) = [] @ m"
      by simp
    then show ?thesis by blast
  next
    case False
    with Cons.prems a have "distinct (Map_keys m)" and "Map_get i m = Some f"
      by (simp_all add: Map_keys_def)
    then obtain pre post where "m = pre @ (i, f) # post" and "Map_delete i m = pre @ post"
      using Cons.IH by blast
    with a False have "a # m = (a # pre) @ (i, f) # post
        \<and> Map_delete i (a # m) = (a # pre) @ post"
      by simp
    then show ?thesis by blast
  qed
qed

lemma getStats_deleteFile:
  assumes "wf s" and "Map_get i (files s) = Some f"
  shows "totalFiles (fst (getStats (deleteFile i s))) + 1 = totalFiles (fst (getStats s))
     \<and> totalViews (fst (getStats (deleteFile i s))) = totalViews (fst (getStats s)) - views f
     \<and> totalDownloads (fst (getStats (deleteFile i s)))
         = totalDownloads (fst (getStats s)) - downloads f
     \<and> totalSize (fst (getStats (deleteFile i s))) = totalSize (fst (getStats s)) - size_f f"
proof -
  have "distinct (Map_keys (files s))" using assms(1) by (simp add: wf_def)
  from Map_delete_present [OF this assms(2)]
  obtain pre post where "files s = pre @ (i, f) # post"
      and "Map_delete i (files s) = pre @ post"
    by blast
  then have m: "files s = pre @ (i, f) # post" and d: "files (deleteFile i s) = pre @ post"
    by (simp_all add: deleteFile_def)
  show ?thesis
    unfolding getStats_files m d by simp
qed

text \<open>
  C1. In every state of the store, \<open>getStats\<close> returns the four aggregates of the live
  records: \<open>totalFiles\<close> is the number of records that \<open>getAllFiles\<close> returns, and
  \<open>totalViews\<close>, \<open>totalDownloads\<close> and \<open>totalSize\<close> are the sums of \<open>views\<close>,
  \<open>downloads\<close> and \<open>size\<close> over those records, which are exactly the records
  stored in the map: \<open>totalFiles\<close> is the number of entries of the map and the three
  totals are the sums over its entries. The result is computed from the current state on
  every call, so it reflects every preceding call: the new store has all four at zero;
  after \<open>createFile\<close> the count is one more and the size total has grown by the
  draft's size, the other two totals being the same; after \<open>deleteFile\<close> of a live
  record the count is one less and each total is less by that record's field; after
  \<open>deleteFile\<close> of an absent id the result is the same.
\<close>

theorem getStats_aggregates:
  "totalFiles (fst (getStats s)) = length (fst (getAllFiles s))
   \<and> totalViews (fst (getStats s)) = sum_list (map views (fst (getAllFiles s)))
   \<and> totalDownloads (fst (getStats s)) = sum_list (map downloads (fst (getAllFiles s)))
   \<and> totalSize (fst (getStats s)) = sum_list (map size_f (fst (getAllFiles s)))
   \<and> fst (getStats s) =
       \<lparr>totalFiles = length (files s),
        totalViews = sum_list (map (\<lambda>(k, f). views f) (files s)),
        totalDownloads = sum_list (map (\<lambda>(k, f). downloads f) (files s)),
        totalSize = sum_list (map (\<lambda>(k, f). size_f f) (files s))\<rparr>
   \<and> mset (fst (getAllFiles s)) = mset (map snd (files s))
   \<and> fst (getStats MemStorage_new) =
       \<lparr>totalFiles = 0, totalViews = 0, totalDownloads = 0, totalSize = 0\<rparr>
   \<and> (wf s \<longrightarrow>
        fst (getStats (snd (createFile d now s))) =
          \<lparr>totalFiles = totalFiles (fst (getStats s)) + 1,
           totalViews = totalViews (fst (getStats s)),
           totalDownloads = totalDownloads (fst (getStats s)),
           totalSize = totalSize (fst (getStats s)) + size_f d\<rparr>)
   \<and> (wf s \<and> Map_get i (files s) = Some f \<longrightarrow>
        totalFiles (fst (getStats (deleteFile i s))) + 1 = totalFiles (fst (getStats s))
        \<and> totalViews (fst (getStats (deleteFile i s))) = totalViews (fst (getStats s)) - views f
        \<and> totalDownloads (fst (getStats (deleteFile i s)))
            = totalDownloads (fst (getStats s)) - downloads f
        \<and> totalSize (fst (getStats (deleteFile i s)))
            = totalSize (fst (getStats s)) - size_f f)
   \<and> (Map_get i (files s) = None \<longrightarrow> fst (getStats (deleteFile i s)) = fst (getStats s))"
proof -
  have a: "totalFiles (fst (getStats s)) = length (fst (getAllFiles s))"
    and b: "totalViews (fst (getStats s)) = sum_list (map views (fst (getAllFiles s)))"
    and c: "totalDownloads (fst (getStats s)) = sum_list (map downloads (fst (getAllFiles s)))"
    and d: "totalSize (fst (getStats s)) = sum_list (map size_f (fst (getAllFiles s)))"
    by (simp_all add: getStats_def getAllFiles_def Let_def Array_reduce_sum
        sum_list_Array_sort length_Array_sort)
  have e: "mset (fst (getAllFiles s)) = mset (map snd (files s))"
    by (simp add: getAllFiles_def mset_Array_sort Map_values_def)
  have f: "fst (getStats MemStorage_new) =
       \<lparr>totalFiles = 0, totalViews = 0, totalDownloads = 0, totalSize = 0\<rparr>"
    by (simp add: getStats_files MemStorage_new_def)
  have g: "Map_get i (files s) = None \<longrightarrow>
       fst (getStats (deleteFile i s)) = fst (getStats s)"
    by (simp add: deleteFile_def Map_delete_absent)
  note h = getStats_files [of s]
  show ?thesis
  proof (intro conjI impI)
    assume "wf s"
    then show "fst (getStats (snd (createFile d now s))) =
          \<lparr>totalFiles = totalFiles (fst (getStats s)) + 1,
           totalViews = totalViews (fst (getStats s)),
           totalDownloads = totalDownloads (fst (getStats s)),
           totalSize = totalSize (fst (getStats s)) + size_f d\<rparr>"
      by (rule getStats_createFile)
  next
    assume "wf s \<and> Map_get i (files s) = Some f"
    then have del: "totalFiles (fst (getStats (deleteFile i s))) + 1 = totalFiles (fst (getStats s))
        \<and> totalViews (fst (getStats (deleteFile i s))) = totalViews (fst (getStats s)) - views f
        \<and> totalDownloads (fst (getStats (deleteFile i s)))
            = totalDownloads (fst (getStats s)) - downloads f
        \<and> totalSize (fst (getStats (deleteFile i s)))
            = totalSize (fst (getStats s)) - size_f f"
      using getStats_deleteFile [of s i f] by simp
    from del show "totalFiles (fst (getStats (deleteFile i s))) + 1
        = totalFiles (fst (getStats s))" by simp
    from del show "totalViews (fst (getStats (deleteFile i s)))
        = totalViews (fst (getStats s)) - views f" by simp
    from del show "totalDownloads (fst (getStats (deleteFile i s)))
        = totalDownloads (fst (getStats s)) - downloads f" by simp
    from del show "totalSize (fst (getStats (deleteFile i s)))
        = totalSize (fst (getStats s)) - size_f f" by simp
  next
    assume "Map_get i (files s) = None"
    with g show "fst (getStats (deleteFile i s)) = fst (getStats s)" by simp
  qed (rule a b c d e f h)+
qed

text \<open>
  On the store holding A (2048 bytes) and B (512 bytes): two files of 2560 bytes; three
  files of 2567 bytes after creating C; one file of 512 bytes after deleting A; unchanged
  after deleting the absent id 7. The scenario of the specification: A created and viewed
  once gives one file, one view, 2048 bytes, and all zeros after it is deleted.
\<close>

theorem getStats_aggregates_witness:
  "wf storeAB \<and> Map_get 1 (files storeAB) = Some fileA \<and> Map_get 7 (files storeAB) = None
   \<and> fst (getStats storeAB) =
       \<lparr>totalFiles = 2, totalViews = 0, totalDownloads = 0, totalSize = 2560\<rparr>
   \<and> fst (getStats (snd (createFile draftC 3 storeAB))) =
       \<lparr>totalFiles = 3, totalViews = 0, totalDownloads = 0, totalSize = 2567\<rparr>
   \<and> totalFiles (fst (getStats (deleteFile 1 storeAB))) = 1
   \<and> totalSize (fst (getStats (deleteFile 1 storeAB))) = 512
   \<and> fst (getStats (deleteFile 7 storeAB)) =
       \<lparr>totalFiles = 2, totalViews = 0, totalDownloads = 0, totalSize = 2560\<rparr>
   \<and> fst (getStats (incrementViews 1 (snd (createFile draftA 1 MemStorage_new)))) =
       \<lparr>totalFiles = 1, totalViews = 1, totalDownloads = 0, totalSize = 2048\<rparr>
   \<and> fst (getStats (deleteFile 1
        (incrementViews 1 (snd (createFile draftA 1 MemStorage_new))))) =
       \<lparr>totalFiles = 0, totalViews = 0, totalDownloads = 0, totalSize = 0\<rparr>"
proof -
  have scenario:
    "fst (getStats (incrementViews 1 (snd (createFile draftA 1 MemStorage_new)))) =
       \<lparr>totalFiles = 1, totalViews = 1, totalDownloads = 0, totalSize = 2048\<rparr>"
    "fst (getStats (deleteFile 1
        (incrementViews 1 (snd (createFile draftA 1 MemStorage_new))))) =
       \<lparr>totalFiles = 0, totalViews = 0, totalDownloads = 0, totalSize = 0\<rparr>"
    by (simp_all add: getStats_def incrementViews_def deleteFile_def createFile_def Let_def
        MemStorage_new_def draftA_def Map_values_def)
  have wf: "wf storeAB"
    by (simp add: storeAB_def createFile_def Let_def MemStorage_new_def wf_def Map_keys_def)
  have live: "Map_get 1 (files storeAB) = Some fileA"
    by (simp add: storeAB_def fileA_def createFile_def Let_def MemStorage_new_def)
  have absent: "Map_get 7 (files storeAB) = None"
    by (simp add: storeAB_def createFile_def Let_def MemStorage_new_def)
  note t1 = getStats_aggregates [of storeAB draftC 3 1 fileA]
  note t7 = getStats_aggregates [of storeAB draftC 3 7 fileA]
  have base: "fst (getStats storeAB) =
       \<lparr>totalFiles = 2, totalViews = 0, totalDownloads = 0, totalSize = 2560\<rparr>"
    using t1
    by (simp add: storeAB_def createFile_def Let_def MemStorage_new_def draftA_def draftB_def)
  have created: "fst (getStats (snd (createFile draftC 3 storeAB))) =
          \<lparr>totalFiles = totalFiles (fst (getStats storeAB)) + 1,
           totalViews = totalViews (fst (getStats storeAB)),
           totalDownloads = totalDownloads (fst (getStats storeAB)),
           totalSize = totalSize (fst (getStats storeAB)) + size_f draftC\<rparr>"
    using t1 wf by blast
  have deleted: "totalFiles (fst (getStats (deleteFile 1 storeAB))) + 1
        = totalFiles (fst (getStats storeAB))
      \<and> totalSize (fst (getStats (deleteFile 1 storeAB)))
        = totalSize (fst (getStats storeAB)) - size_f fileA"
    using t1 wf live by blast
  have noop: "fst (getStats (deleteFile 7 storeAB)) = fst (getStats storeAB)"
    using t7 absent by blast
  have sizes: "size_f draftC = 7" "size_f fileA = 2048"
    by (simp_all add: draftC_def fileA_def createFile_def Let_def draftA_def)
  have created': "fst (getStats (snd (createFile draftC 3 storeAB))) =
       \<lparr>totalFiles = 3, totalViews = 0, totalDownloads = 0, totalSize = 2567\<rparr>"
    unfolding created base sizes by simp
  have deleted': "totalFiles (fst (getStats (deleteFile 1 storeAB))) = 1"
      "totalSize (fst (getStats (deleteFile 1 storeAB))) = 512"
    using deleted unfolding base sizes by simp_all
  have noop': "fst (getStats (deleteFile 7 storeAB)) =
       \<lparr>totalFiles = 2, totalViews = 0, totalDownloads = 0, totalSize = 2560\<rparr>"
    unfolding noop base by (rule refl)
  show ?thesis
    by (intro conjI) (rule wf live absent base created' deleted' noop' scenario)+
qed

end
